theory Spec2Isabelle
  imports Complex_Main "HOL-Library.Sublist" "HOL-Library.Word" "HOL-Library.AList"
begin

unbundle bit_operations_syntax

section \<open>Python strings\<close>

text \<open>
  A Python \<open>str\<close> is modelled as a \<open>string\<close> whose characters are the code points
  0..255.  \<open>isspace\<close> is \<open>str.isspace\<close> on that range: tab, line feed, vertical tab,
  form feed, carriage return, the separators 0x1c..0x1f, space, NEL (0x85) and the
  no-break space (0xa0).
\<close>

definition isspace :: "char \<Rightarrow> bool" where
  "isspace c = (let n = (of_char c :: nat) in
     (9 \<le> n \<and> n \<le> 13) \<or> (28 \<le> n \<and> n \<le> 32) \<or> n = 133 \<or> n = 160)"

text \<open>\<open>str.strip()\<close>: whitespace removed at both ends.\<close>

definition strip :: "string \<Rightarrow> string" where
  "strip s = rev (dropWhile isspace (rev (dropWhile isspace s)))"

text \<open>
  \<open>split_by P s\<close> cuts \<open>s\<close> at every character satisfying \<open>P\<close> and keeps the empty
  pieces, so the result is never empty.  \<open>s.split(c)\<close> for a one-character separator is
  \<open>split_on c s\<close>; \<open>s.split()\<close> cuts at whitespace and drops the empty pieces.
\<close>

fun split_by :: "(char \<Rightarrow> bool) \<Rightarrow> string \<Rightarrow> string list" where
  "split_by P [] = [[]]"
| "split_by P (x # xs) =
     (if P x then [] # split_by P xs
      else (case split_by P xs of [] \<Rightarrow> [[x]] | w # ws \<Rightarrow> (x # w) # ws))"

definition split_on :: "char \<Rightarrow> string \<Rightarrow> string list" where
  "split_on c s = split_by (\<lambda>x. x = c) s"

definition split_ws :: "string \<Rightarrow> string list" where
  "split_ws s = filter (\<lambda>w. w \<noteq> []) (split_by isspace s)"

text \<open>\<open>sep.join(xs)\<close>.\<close>

fun join :: "string \<Rightarrow> string list \<Rightarrow> string" where
  "join sep [] = []"
| "join sep [x] = x"
| "join sep (x # y # ys) = x @ sep @ join sep (y # ys)"

text \<open>
  \<open>str.lower()\<close> on the code points 0..255: the capitals A..Z and 0xc0..0xde (without the
  multiplication sign 0xd7) move up by 32, which sets bit 5 of the character.
\<close>

definition lower_char :: "char \<Rightarrow> char" where
  "lower_char c = (let n = (of_char c :: nat) in
     if (65 \<le> n \<and> n \<le> 90) \<or> (192 \<le> n \<and> n \<le> 222 \<and> n \<noteq> 215)
     then (case c of Char b0 b1 b2 b3 b4 b5 b6 b7 \<Rightarrow> Char b0 b1 b2 b3 b4 True b6 b7)
     else c)"

definition lower :: "string \<Rightarrow> string" where
  "lower s = map lower_char s"

text \<open>\<open>w in s\<close> on strings: \<open>w\<close> occurs in \<open>s\<close> as a contiguous substring.\<close>

definition py_in :: "string \<Rightarrow> string \<Rightarrow> bool" where
  "py_in w s = sublist w s"

text \<open>\<open>s.endswith(w)\<close>.\<close>

definition endswith :: "string \<Rightarrow> string \<Rightarrow> bool" where
  "endswith s w = suffix w s"

definition nl :: char where
  "nl = CHR 0x0A"

section \<open>Chunker: \<open>DocumentParser.split_into_chunks\<close>\<close>

text \<open>
  The tokenizer (\<open>tiktoken\<close>, an external library) is the parameter \<open>tok\<close>:
  \<open>count_tokens text = tok text\<close>.  \<open>max_tokens_per_chunk\<close> is a Python \<open>int\<close>.
\<close>

definition paragraphs_of :: "string \<Rightarrow> string list" where
  "paragraphs_of text = map strip (filter (\<lambda>p. strip p \<noteq> []) (split_on nl text))"

text \<open>
  The loop over the paragraphs, on the state
  \<open>(chunks, current_chunk, current_tokens)\<close>.
\<close>

fun chunk_loop ::
  "(string \<Rightarrow> nat) \<Rightarrow> int \<Rightarrow> string list \<Rightarrow> string list \<times> string \<times> nat
     \<Rightarrow> string list \<times> string \<times> nat" where
  "chunk_loop tok mx [] st = st"
| "chunk_loop tok mx (paragraph # ps) (chunks, current_chunk, current_tokens) =
     (let paragraph_tokens = tok paragraph in
      if int (current_tokens + paragraph_tokens) > mx \<and> current_chunk \<noteq> []
      then chunk_loop tok mx ps (chunks @ [strip current_chunk], paragraph, paragraph_tokens)
      else chunk_loop tok mx ps
             (chunks,
              (if current_chunk \<noteq> [] then current_chunk @ [nl] @ paragraph else paragraph),
              current_tokens + paragraph_tokens))"

definition split_into_chunks :: "(string \<Rightarrow> nat) \<Rightarrow> int \<Rightarrow> string \<Rightarrow> string list" where
  "split_into_chunks tok mx text =
     (case chunk_loop tok mx (paragraphs_of text) ([], [], 0) of
        (chunks, current_chunk, current_tokens) \<Rightarrow>
          if current_chunk \<noteq> [] then chunks @ [strip current_chunk] else chunks)"

text \<open>
  The same loop on paragraph groups instead of joined text: the state is
  \<open>(groups, current_group, current_tokens)\<close>, the control flow is that of
  \<open>chunk_loop\<close>.  It names the paragraphs each chunk is made of.
\<close>

fun group_loop ::
  "(string \<Rightarrow> nat) \<Rightarrow> int \<Rightarrow> string list \<Rightarrow> string list list \<times> string list \<times> nat
     \<Rightarrow> string list list \<times> string list \<times> nat" where
  "group_loop tok mx [] st = st"
| "group_loop tok mx (paragraph # ps) (groups, current_group, current_tokens) =
     (let paragraph_tokens = tok paragraph in
      if int (current_tokens + paragraph_tokens) > mx \<and> current_group \<noteq> []
      then group_loop tok mx ps (groups @ [current_group], [paragraph], paragraph_tokens)
      else group_loop tok mx ps
             (groups, current_group @ [paragraph], current_tokens + paragraph_tokens))"

definition chunk_groups :: "(string \<Rightarrow> nat) \<Rightarrow> int \<Rightarrow> string list \<Rightarrow> string list list" where
  "chunk_groups tok mx paragraphs =
     (case group_loop tok mx paragraphs ([], [], 0) of
        (groups, current_group, current_tokens) \<Rightarrow>
          if current_group \<noteq> [] then groups @ [current_group] else groups)"

text \<open>A paragraph is non-empty and neither starts nor ends with whitespace.\<close>

definition trimmed :: "string \<Rightarrow> bool" where
  "trimmed p = (p \<noteq> [] \<and> \<not> isspace (hd p) \<and> \<not> isspace (last p))"

text \<open>
  A group is within the limit when the token counts of its paragraphs add up to at most
  the maximum, or when it is a single paragraph.
\<close>

definition group_ok :: "(string \<Rightarrow> nat) \<Rightarrow> int \<Rightarrow> string list \<Rightarrow> bool" where
  "group_ok tok mx g =
     (g \<noteq> [] \<and> (int (sum_list (map tok g)) \<le> mx \<or> length g = 1))"

text \<open>
  A tokenizer for concrete runs: one token for every line feed and one for every
  non-empty line.  On a text of one-letter lines such as \<open>a\<close>, line feed, \<open>b\<close> it counts
  what the byte-pair tokenizer \<open>cl100k_base\<close> counts there (three tokens: the letter, the
  line feed, the letter).
\<close>

definition line_tokens :: "string \<Rightarrow> nat" where
  "line_tokens s =
     length (filter (\<lambda>c. c = nl) s) + length (filter (\<lambda>l. l \<noteq> []) (split_on nl s))"

text \<open>The word-count estimate \<open>len(text.split())\<close>.\<close>

definition word_count :: "string \<Rightarrow> nat" where
  "word_count s = length (split_ws s)"

section \<open>Python values and errors\<close>

datatype py_error =
  KeyError string | TypeError | ValueError | BackendError string | DownloadError string

datatype pyval = PyStr string | PyInt int

text \<open>\<open>str(n)\<close> for an integer: decimal digits, a minus sign for a negative number.\<close>

definition digit_char :: "nat \<Rightarrow> char" where
  "digit_char d = char_of (48 + d)"

function str_nat :: "nat \<Rightarrow> string" where
  "str_nat n = (if n < 10 then [digit_char n] else str_nat (n div 10) @ [digit_char (n mod 10)])"
  by pat_completeness auto
termination
  by (relation "measure (\<lambda>n. n)") auto

definition str_int :: "int \<Rightarrow> string" where
  "str_int i = (if i < 0 then CHR ''-'' # str_nat (nat (- i)) else str_nat (nat i))"

section \<open>Surrogate embedder: \<open>EmbeddingServiceVercel._simple_text_to_vector\<close>\<close>

text \<open>
  \<open>hashlib.md5(text.encode())\<close> is an external library: the parameter \<open>md5\<close> gives the
  128-bit digest of a text.  \<open>hexdigest\<close> writes its 16 bytes, most significant first, as
  two lower-case hexadecimal digits each.
\<close>

definition digest_bytes :: "128 word \<Rightarrow> nat list" where
  "digest_bytes d = map (\<lambda>k. unat (drop_bit (8 * (15 - k)) d AND 255)) [0..<16]"

definition hex_digit :: "nat \<Rightarrow> char" where
  "hex_digit n = (if n < 10 then char_of (48 + n) else char_of (87 + n))"

definition hex_byte :: "nat \<Rightarrow> string" where
  "hex_byte b = [hex_digit (b div 16), hex_digit (b mod 16)]"

definition hexdigest :: "128 word \<Rightarrow> string" where
  "hexdigest d = concat (map hex_byte (digest_bytes d))"

text \<open>
  \<open>int(s, 16)\<close> on a string of hexadecimal digits; anything else is a \<open>ValueError\<close>
  (the signs, blanks and prefixes Python also accepts do not occur in a hex digest).
\<close>

definition hex_value :: "char \<Rightarrow> nat option" where
  "hex_value c = (let n = (of_char c :: nat) in
     if 48 \<le> n \<and> n \<le> 57 then Some (n - 48)
     else if 97 \<le> n \<and> n \<le> 102 then Some (n - 87)
     else if 65 \<le> n \<and> n \<le> 70 then Some (n - 55)
     else None)"

fun int16_acc :: "nat \<Rightarrow> string \<Rightarrow> py_error + nat" where
  "int16_acc a [] = Inr a"
| "int16_acc a (c # cs) =
     (case hex_value c of None \<Rightarrow> Inl ValueError | Some v \<Rightarrow> int16_acc (16 * a + v) cs)"

definition int16 :: "string \<Rightarrow> py_error + nat" where
  "int16 s = (if s = [] then Inl ValueError else int16_acc 0 s)"

text \<open>
  A vector component is a Python \<open>float\<close>; it is modelled by the rational it stands for.
  \<open>float(n) / 255.0\<close> for \<open>n\<close> in 0..255 rounds \<open>n / 255\<close> to the nearest double, which
  keeps the order, the bounds 0 and 1, and the distinctness of the 256 values.
\<close>

type_synonym vector = "rat list"

text \<open>
  The \<open>for i in range(0, len(text_hash), 2)\<close> loop with its \<open>break\<close>, over the list of
  the indices still to visit.
\<close>

fun pair_loop :: "string \<Rightarrow> nat list \<Rightarrow> vector \<Rightarrow> py_error + vector" where
  "pair_loop text_hash [] v = Inr v"
| "pair_loop text_hash (i # is) v =
     (if length v \<ge> 128 then Inr v
      else (case int16 (take 2 (drop i text_hash)) of
              Inl e \<Rightarrow> Inl e
            | Inr n \<Rightarrow> pair_loop text_hash is (v @ [of_nat n / 255])))"

text \<open>The \<open>while len(vector) < 128\<close> loop.\<close>

function pad_loop :: "vector \<Rightarrow> vector" where
  "pad_loop v = (if length v < 128 then pad_loop (v @ [0]) else v)"
  by pat_completeness auto
termination
  by (relation "measure (\<lambda>v. 128 - length v)") auto

definition range_step2 :: "nat \<Rightarrow> nat list" where
  "range_step2 n = map (\<lambda>k. 2 * k) [0..<(n + 1) div 2]"

definition simple_text_to_vector :: "(string \<Rightarrow> 128 word) \<Rightarrow> string \<Rightarrow> py_error + vector" where
  "simple_text_to_vector md5 text =
     (let text_hash = hexdigest (md5 text) in
      case pair_loop text_hash (range_step2 (length text_hash)) [] of
        Inl e \<Rightarrow> Inl e
      | Inr v \<Rightarrow> Inr (take 128 (pad_loop v)))"

text \<open>
  \<open>get_embeddings\<close>: one vector per text; any exception inside the loop is caught and
  the result is the empty list.
\<close>

fun embed_all :: "(string \<Rightarrow> 128 word) \<Rightarrow> string list \<Rightarrow> py_error + vector list" where
  "embed_all md5 [] = Inr []"
| "embed_all md5 (t # ts) =
     (case simple_text_to_vector md5 t of
        Inl e \<Rightarrow> Inl e
      | Inr v \<Rightarrow> (case embed_all md5 ts of Inl e \<Rightarrow> Inl e | Inr vs \<Rightarrow> Inr (v # vs)))"

definition get_embeddings :: "(string \<Rightarrow> 128 word) \<Rightarrow> string list \<Rightarrow> vector list" where
  "get_embeddings md5 texts = (case embed_all md5 texts of Inl e \<Rightarrow> [] | Inr vs \<Rightarrow> vs)"

section \<open>Fallback heuristics of \<open>GroqService\<close>\<close>

record parsed_query =
  intent :: string
  entities :: "string list"
  conditions :: "string list"

text \<open>\<open>if cond: keywords.append(k)\<close>, as the list it adds.\<close>

definition kw :: "bool \<Rightarrow> string \<Rightarrow> string list" where
  "kw cond k = (if cond then [k] else [])"

definition fallback_parse_query :: "string \<Rightarrow> parsed_query" where
  "fallback_parse_query query =
     (let query_lower = lower query;
          keywords =
            kw (py_in ''grace period'' query_lower) ''grace period'' @
            kw (py_in ''waiting period'' query_lower) ''waiting period'' @
            kw (py_in ''premium'' query_lower) ''premium'' @
            kw (py_in ''coverage'' query_lower) ''coverage'' @
            kw (py_in ''hospital'' query_lower) ''hospital'' @
            kw (py_in ''maternity'' query_lower) ''maternity'' @
            kw (py_in ''claim'' query_lower) ''claim'' @
            kw (py_in ''ncd'' query_lower \<or> py_in ''no claim discount'' query_lower) ''ncd'' @
            kw (py_in ''deductible'' query_lower) ''deductible'' @
            kw (py_in ''exclusion'' query_lower) ''exclusion'' @
            kw (py_in ''benefit'' query_lower) ''benefit'' @
            kw (py_in ''policy'' query_lower) ''policy'' @
            kw (py_in ''term'' query_lower) ''term'' @
            kw (py_in ''renewal'' query_lower) ''renewal'' @
            kw (py_in ''cancellation'' query_lower) ''cancellation'';
          intent =
            (if list_ex (\<lambda>word. py_in word query_lower) [''grace'', ''waiting'']
             then ''find_period''
             else if list_ex (\<lambda>word. py_in word query_lower) [''premium'', ''payment'']
             then ''find_payment_info''
             else if list_ex (\<lambda>word. py_in word query_lower) [''coverage'', ''benefit'']
             then ''find_coverage''
             else if list_ex (\<lambda>word. py_in word query_lower) [''claim'', ''ncd'']
             then ''find_claim_info''
             else ''general_query'')
      in \<lparr>intent = intent, entities = keywords, conditions = []\<rparr>)"

text \<open>The fixed vocabulary of the keyword scan, in the order of the scan.\<close>

definition vocabulary :: "string list" where
  "vocabulary =
     [''grace period'', ''waiting period'', ''premium'', ''coverage'', ''hospital'',
      ''maternity'', ''claim'', ''ncd'', ''deductible'', ''exclusion'', ''benefit'',
      ''policy'', ''term'', ''renewal'', ''cancellation'']"

text \<open>
  A clause evaluation.  \<open>confidence\<close> is a Python \<open>float\<close>, the quotient of two word
  counts; it is modelled by the exact rational.  The test \<open>confidence > 0.3\<close> on doubles
  agrees with the exact test against 3/10 for every question of fewer than \<open>10 ^ 15\<close>
  distinct words, since a quotient above 3/10 exceeds it by at least \<open>1 / (10 * total)\<close>.
\<close>

record clause_evaluation =
  answer :: string
  direct_answer :: string
  explanation :: string
  confidence :: rat

definition fallback_evaluate_clause :: "string \<Rightarrow> string \<Rightarrow> clause_evaluation" where
  "fallback_evaluate_clause query clause =
     (let query_lower = lower query;
          clause_lower = lower clause;
          query_words = set (split_ws query_lower);
          clause_words = set (split_ws clause_lower);
          overlap = card (query_words \<inter> clause_words);
          total_query_words = card query_words;
          confidence =
            (if total_query_words = 0 then 0
             else min (of_nat overlap / of_nat total_query_words) 1)
      in if confidence > 3 / 10
         then \<lparr>answer = ''yes'',
               direct_answer = (if length clause > 200 then take 200 clause @ ''...'' else clause),
               explanation = ''Clause contains '' @ str_nat overlap @ '' relevant keywords'',
               confidence = confidence\<rparr>
         else \<lparr>answer = ''no'',
               direct_answer = ''No relevant information found'',
               explanation = ''Clause doesn't contain relevant keywords'',
               confidence = confidence\<rparr>)"

text \<open>The \<open>for sentence in sentences\<close> loop, appending to \<open>relevant_sentences\<close>.\<close>

fun sentence_loop :: "string list \<Rightarrow> string list \<Rightarrow> string list \<Rightarrow> string list" where
  "sentence_loop query_words [] relevant_sentences = relevant_sentences"
| "sentence_loop query_words (sentence # rest) relevant_sentences =
     (let sentence_lower = lower sentence in
      if list_ex (\<lambda>word. py_in word sentence_lower) query_words
      then sentence_loop query_words rest (relevant_sentences @ [strip sentence])
      else sentence_loop query_words rest relevant_sentences)"

definition fallback_generate_answer :: "string \<Rightarrow> string list \<Rightarrow> string" where
  "fallback_generate_answer query relevant_texts =
     (if relevant_texts = [] then ''No relevant information found in the document.''
      else
        let combined_text = join '' '' relevant_texts;
            query_lower = lower query;
            sentences = split_on (CHR ''.'') combined_text;
            relevant_sentences = sentence_loop (split_ws query_lower) sentences []
        in if relevant_sentences \<noteq> []
           then (let answer = join ''. '' (take 3 relevant_sentences)
                 in if \<not> endswith answer ''.'' then answer @ ''.'' else answer)
           else (if length combined_text > 500 then take 500 combined_text @ ''...''
                 else combined_text))"

section \<open>Vector index: \<open>EmbeddingServiceVercel\<close>\<close>

text \<open>
  A document is a Python dictionary from strings to values.  The record sent to the
  vector database has an id, the embedding and a metadata dictionary with the keys
  \<open>text\<close>, \<open>source\<close> and \<open>timestamp\<close>.
\<close>

type_synonym document = "string \<rightharpoonup> pyval"

record metadata =
  md_text :: string
  md_source :: pyval
  md_timestamp :: pyval

record pvector =
  vec_id :: string
  vec_values :: vector
  vec_metadata :: metadata

text \<open>
  The vector database behind the Pinecone client is an external service; its model
  follows the contract the specification states for it.  It holds one record per id, in
  insertion order; an upsert overwrites the record that shares the id and appends
  otherwise; a query returns the \<open>top_k\<close> records of highest score, none for an empty
  index; every call raises when the service cannot be reached.  The score (cosine
  similarity, computed by the service) is the parameter \<open>sim\<close>.  The namespaces of the
  statistics are left out.
\<close>

record backend =
  entries :: "(string \<times> vector \<times> metadata) list"
  reachable :: bool
  dimension :: nat
  index_fullness :: rat

definition unreachable :: py_error where
  "unreachable = BackendError ''service unavailable''"

definition upsert_all ::
  "pvector list \<Rightarrow> (string \<times> vector \<times> metadata) list \<Rightarrow> (string \<times> vector \<times> metadata) list" where
  "upsert_all vectors es =
     fold (\<lambda>v. AList.update (vec_id v) (vec_values v, vec_metadata v)) vectors es"

definition backend_upsert :: "backend \<Rightarrow> pvector list \<Rightarrow> py_error + backend" where
  "backend_upsert b vectors =
     (if reachable b then Inr (b\<lparr>entries := upsert_all vectors (entries b)\<rparr>)
      else Inl unreachable)"


definition backend_query ::
  "(vector \<Rightarrow> vector \<Rightarrow> rat) \<Rightarrow> backend \<Rightarrow> vector \<Rightarrow> nat
     \<Rightarrow> py_error + (string \<times> rat \<times> metadata) list" where
  "backend_query sim b qv top_k =
     (if reachable b
      then Inr (take top_k
             (sort_key (\<lambda>(i, s, m). - s) (map (\<lambda>(i, v, m). (i, sim qv v, m)) (entries b))))
      else Inl unreachable)"

definition backend_delete_all :: "backend \<Rightarrow> py_error + backend" where
  "backend_delete_all b = (if reachable b then Inr (b\<lparr>entries := []\<rparr>) else Inl unreachable)"

definition backend_describe :: "backend \<Rightarrow> py_error + nat \<times> nat \<times> rat" where
  "backend_describe b =
     (if reachable b then Inr (length (entries b), dimension b, index_fullness b)
      else Inl unreachable)"

text \<open>
  The service object: \<open>self.pc\<close> is \<open>None\<close> when the credentials are missing or the
  client could not be created.
\<close>

record embedding_service =
  pc :: "backend option"

text \<open>
  \<open>doc["text"]\<close>, used as a string: a missing key raises \<open>KeyError\<close>; a value that is
  not a string makes the embedding or the slicing fail.  Either way \<open>index_documents\<close>
  ends in \<open>return False\<close>.
\<close>

definition doc_text :: "document \<Rightarrow> py_error + string" where
  "doc_text doc =
     (case doc ''text'' of
        None \<Rightarrow> Inl (KeyError ''text'')
      | Some (PyStr s) \<Rightarrow> Inr s
      | Some (PyInt i) \<Rightarrow> Inl TypeError)"

fun doc_texts :: "document list \<Rightarrow> py_error + string list" where
  "doc_texts [] = Inr []"
| "doc_texts (d # ds) =
     (case doc_text d of
        Inl e \<Rightarrow> Inl e
      | Inr t \<Rightarrow> (case doc_texts ds of Inl e \<Rightarrow> Inl e | Inr ts \<Rightarrow> Inr (t # ts)))"

text \<open>\<open>doc.get(key, default)\<close>.\<close>

definition doc_get :: "document \<Rightarrow> string \<Rightarrow> pyval \<Rightarrow> pyval" where
  "doc_get doc key dflt = (case doc key of None \<Rightarrow> dflt | Some v \<Rightarrow> v)"

text \<open>
  The id \<open>f"doc_{i}_{hash(doc['text'][:100])}"\<close>.  Python's built-in \<open>hash\<close> is the
  parameter \<open>hsh\<close>: for strings it is salted with a value drawn when the interpreter
  starts, so it is one function for the lifetime of a process and another one in the next
  process.
\<close>

definition record_id :: "(string \<Rightarrow> int) \<Rightarrow> nat \<Rightarrow> string \<Rightarrow> string" where
  "record_id hsh i text = ''doc_'' @ str_nat i @ ''_'' @ str_int (hsh (take 100 text))"

text \<open>The loop over \<open>enumerate(zip(documents, embeddings))\<close>.\<close>

fun vector_loop ::
  "(string \<Rightarrow> int) \<Rightarrow> nat \<Rightarrow> (document \<times> vector) list \<Rightarrow> pvector list
     \<Rightarrow> py_error + pvector list" where
  "vector_loop hsh i [] vectors = Inr vectors"
| "vector_loop hsh i ((doc, embedding) # rest) vectors =
     (case doc_text doc of
        Inl e \<Rightarrow> Inl e
      | Inr t \<Rightarrow>
          vector_loop hsh (Suc i) rest
            (vectors @
             [\<lparr>vec_id = record_id hsh i t,
               vec_values = embedding,
               vec_metadata =
                 \<lparr>md_text = take 1000 t,
                  md_source = doc_get doc ''source'' (PyStr ''unknown''),
                  md_timestamp = doc_get doc ''timestamp'' (PyStr [])\<rparr>\<rparr>]))"

text \<open>The body of the \<open>try\<close> block of \<open>index_documents\<close>.\<close>

definition index_documents_try ::
  "(string \<Rightarrow> int) \<Rightarrow> (string \<Rightarrow> 128 word) \<Rightarrow> backend \<Rightarrow> document list
     \<Rightarrow> py_error + bool \<times> backend" where
  "index_documents_try hsh md5 b documents =
     (case doc_texts documents of
        Inl e \<Rightarrow> Inl e
      | Inr texts \<Rightarrow>
          let embeddings = get_embeddings md5 texts in
          if embeddings = [] then Inr (False, b)
          else (case vector_loop hsh 0 (zip documents embeddings) [] of
                  Inl e \<Rightarrow> Inl e
                | Inr vectors \<Rightarrow>
                    (case backend_upsert b vectors of
                       Inl e \<Rightarrow> Inl e
                     | Inr b' \<Rightarrow> Inr (True, b'))))"

text \<open>
  \<open>index_documents\<close>: \<open>False\<close> without a client; otherwise the \<open>try\<close> block, with
  \<open>except Exception: return False\<close>.  The result is the returned boolean and the service
  afterwards.
\<close>

definition index_documents ::
  "(string \<Rightarrow> int) \<Rightarrow> (string \<Rightarrow> 128 word) \<Rightarrow> embedding_service \<Rightarrow> document list
     \<Rightarrow> bool \<times> embedding_service" where
  "index_documents hsh md5 svc documents =
     (case pc svc of
        None \<Rightarrow> (False, svc)
      | Some b \<Rightarrow>
          (case index_documents_try hsh md5 b documents of
             Inl e \<Rightarrow> (False, svc)
           | Inr (ok, b') \<Rightarrow> (ok, svc\<lparr>pc := Some b'\<rparr>)))"

record search_hit =
  hit_id :: string
  hit_score :: rat
  hit_text :: string
  hit_source :: pyval
  hit_timestamp :: pyval

definition search_similar_try ::
  "(vector \<Rightarrow> vector \<Rightarrow> rat) \<Rightarrow> (string \<Rightarrow> 128 word) \<Rightarrow> backend \<Rightarrow> string \<Rightarrow> nat
     \<Rightarrow> py_error + search_hit list" where
  "search_similar_try sim md5 b query top_k =
     (case get_embeddings md5 [query] of
        [] \<Rightarrow> Inr []
      | qv # _ \<Rightarrow>
          (case backend_query sim b qv top_k of
             Inl e \<Rightarrow> Inl e
           | Inr matches \<Rightarrow>
               Inr (map (\<lambda>(i, s, m).
                      \<lparr>hit_id = i, hit_score = s, hit_text = md_text m,
                       hit_source = md_source m, hit_timestamp = md_timestamp m\<rparr>) matches)))"

definition search_similar ::
  "(vector \<Rightarrow> vector \<Rightarrow> rat) \<Rightarrow> (string \<Rightarrow> 128 word) \<Rightarrow> embedding_service \<Rightarrow> string \<Rightarrow> nat
     \<Rightarrow> search_hit list" where
  "search_similar sim md5 svc query top_k =
     (case pc svc of
        None \<Rightarrow> []
      | Some b \<Rightarrow>
          (case search_similar_try sim md5 b query top_k of Inl e \<Rightarrow> [] | Inr docs \<Rightarrow> docs))"

definition clear_index :: "embedding_service \<Rightarrow> bool \<times> embedding_service" where
  "clear_index svc =
     (case pc svc of
        None \<Rightarrow> (False, svc)
      | Some b \<Rightarrow>
          (case backend_delete_all b of
             Inl e \<Rightarrow> (False, svc)
           | Inr b' \<Rightarrow> (True, svc\<lparr>pc := Some b'\<rparr>)))"

text \<open>The statistics mapping: either the key \<open>error\<close> alone, or the figures.\<close>

datatype index_stats =
  Stats_error string
  | Stats (total_vector_count: nat) (stats_dimension: nat) (stats_fullness: rat)

text \<open>\<open>str(e)\<close> for the exceptions of this model.\<close>

fun error_text :: "py_error \<Rightarrow> string" where
  "error_text (KeyError k) = CHR 0x27 # k @ [CHR 0x27]"
| "error_text TypeError = ''TypeError''"
| "error_text ValueError = ''ValueError''"
| "error_text (BackendError msg) = msg"
| "error_text (DownloadError msg) = msg"

definition get_index_stats :: "embedding_service \<Rightarrow> index_stats" where
  "get_index_stats svc =
     (case pc svc of
        None \<Rightarrow> Stats_error ''Pinecone not initialized''
      | Some b \<Rightarrow>
          (case backend_describe b of
             Inl e \<Rightarrow> Stats_error (error_text e)
           | Inr (n, d, f) \<Rightarrow> Stats n d f))"

text \<open>
  Stand-ins for concrete runs: a salted string hash that, like the interpreter's,
  gives different values under different salts, a digest, and a score.
\<close>

definition salted_hash :: "nat \<Rightarrow> string \<Rightarrow> int" where
  "salted_hash salt s = int salt + int (length s)"

definition length_digest :: "string \<Rightarrow> 128 word" where
  "length_digest s = of_nat (length s)"

definition flat_score :: "vector \<Rightarrow> vector \<Rightarrow> rat" where
  "flat_score qv v = 1"

definition empty_backend :: backend where
  "empty_backend = \<lparr>entries = [], reachable = True, dimension = 128, index_fullness = 0\<rparr>"

section \<open>Answering with or without the language model\<close>

text \<open>
  The Groq chat completion is an external service.  A client is two functions: the
  completion of the parsing prompt for a question, parsed as JSON, and the text of the
  completion of the answer prompt for a question and a context; either may raise.
  \<open>self.client\<close> is \<open>None\<close> when the API key is missing or the client could not be created.
\<close>

record llm_client =
  parse_completion :: "string \<Rightarrow> py_error + parsed_query"
  answer_completion :: "string \<Rightarrow> string \<Rightarrow> py_error + string"

record groq_service =
  client :: "llm_client option"

definition parse_query :: "groq_service \<Rightarrow> string \<Rightarrow> parsed_query" where
  "parse_query gs query =
     (case client gs of
        None \<Rightarrow> fallback_parse_query query
      | Some c \<Rightarrow>
          (case parse_completion c query of
             Inl e \<Rightarrow> fallback_parse_query query
           | Inr result \<Rightarrow> result))"

definition generate_detailed_answer :: "groq_service \<Rightarrow> string \<Rightarrow> string list \<Rightarrow> string" where
  "generate_detailed_answer gs query relevant_texts =
     (case client gs of
        None \<Rightarrow> fallback_generate_answer query relevant_texts
      | Some c \<Rightarrow>
          (let context = join [nl, nl] (take 5 relevant_texts) in
           case answer_completion c query context of
             Inl e \<Rightarrow> fallback_generate_answer query relevant_texts
           | Inr content \<Rightarrow> strip content))"

section \<open>Request handler: \<open>hackrx_run\<close>\<close>

datatype http_error = HTTPException nat string

record hackrx_request =
  documents :: string
  questions :: "string list"

definition expected_key :: string where
  "expected_key = ''4a7809a665f2f39b1f2fa7c7073518e6baa4ebe9309eea30dae92adba5772d8c''"

definition get_current_user :: "string \<Rightarrow> http_error + string" where
  "get_current_user api_key =
     (if api_key \<noteq> expected_key then Inl (HTTPException 401 ''Invalid API key'')
      else Inr api_key)"

text \<open>
  What the handler reaches outside this repository: downloading the document and
  extracting its text (\<open>aiohttp\<close>, PyMuPDF, python-docx), which raises when the download
  does not answer with status 200 or the file cannot be parsed, the tokenizer and its
  limit, the string hash, the digest and the similarity score.
\<close>

record world =
  extract_text :: "string \<Rightarrow> py_error + string"
  tokenizer :: "string \<Rightarrow> nat"
  max_tokens_per_chunk :: int
  string_hash :: "string \<Rightarrow> int"
  md5_digest :: "string \<Rightarrow> 128 word"
  similarity :: "vector \<Rightarrow> vector \<Rightarrow> rat"

text \<open>\<open>url.split('?')[0].split('.')[-1].lower()\<close>.\<close>

definition file_extension :: "string \<Rightarrow> string" where
  "file_extension url = lower (last (split_on (CHR ''.'') (hd (split_on (CHR ''?'') url))))"

text \<open>The metadata dictionaries of the chunks, \<open>enumerate(chunks)\<close> from index \<open>i\<close>.\<close>

fun chunk_metadata ::
  "(string \<Rightarrow> nat) \<Rightarrow> string \<Rightarrow> nat \<Rightarrow> nat \<Rightarrow> string list \<Rightarrow> document list" where
  "chunk_metadata tok url n_total i [] = []"
| "chunk_metadata tok url n_total i (chunk # rest) =
     [''text'' \<mapsto> PyStr chunk,
      ''chunk_id'' \<mapsto> PyStr (''chunk_'' @ str_nat i),
      ''doc_source'' \<mapsto> PyStr url,
      ''file_type'' \<mapsto> PyStr (file_extension url),
      ''token_count'' \<mapsto> PyInt (int (tok chunk)),
      ''chunk_index'' \<mapsto> PyInt (int i),
      ''total_chunks'' \<mapsto> PyInt (int n_total)]
     # chunk_metadata tok url n_total (Suc i) rest"

definition process_document_from_url :: "world \<Rightarrow> string \<Rightarrow> py_error + document list" where
  "process_document_from_url w url =
     (case extract_text w url of
        Inl e \<Rightarrow> Inl e
      | Inr text \<Rightarrow>
          (let chunks = split_into_chunks (tokenizer w) (max_tokens_per_chunk w) text
           in Inr (chunk_metadata (tokenizer w) url (length chunks) 0 chunks)))"

text \<open>One pass of the question loop: the answer for a question.\<close>

definition answer_question ::
  "world \<Rightarrow> embedding_service \<Rightarrow> groq_service \<Rightarrow> string \<Rightarrow> string" where
  "answer_question w svc gs question =
     (let parsed_query = parse_query gs question;
          similar_clauses = search_similar (similarity w) (md5_digest w) svc question 5
      in if similar_clauses = [] then ''No relevant information found in the document.''
         else generate_detailed_answer gs question (map hit_text similar_clauses))"

fun question_loop ::
  "world \<Rightarrow> embedding_service \<Rightarrow> groq_service \<Rightarrow> string list \<Rightarrow> string list \<Rightarrow> string list" where
  "question_loop w svc gs [] answers = answers"
| "question_loop w svc gs (question # rest) answers =
     question_loop w svc gs rest (answers @ [answer_question w svc gs question])"

text \<open>
  \<open>hackrx_run\<close> after the token check: an \<open>HTTPException\<close> raised in the body is passed
  on, any other exception becomes status 500.  The webhook task and the performance
  monitor do not touch the response and are left out.  The result is the response or the
  error, and the embedding service afterwards.
\<close>

definition hackrx_run ::
  "world \<Rightarrow> embedding_service \<Rightarrow> groq_service \<Rightarrow> hackrx_request
     \<Rightarrow> (http_error + string list) \<times> embedding_service" where
  "hackrx_run w svc gs request =
     (case process_document_from_url w (documents request) of
        Inl e \<Rightarrow> (Inl (HTTPException 500 ''Internal server error''), svc)
      | Inr document_chunks \<Rightarrow>
          if document_chunks = []
          then (Inl (HTTPException 400 ''Failed to process document''), svc)
          else (case index_documents (string_hash w) (md5_digest w) svc document_chunks of
                  (indexing_success, svc') \<Rightarrow>
                    if \<not> indexing_success
                    then (Inl (HTTPException 500 ''Failed to index document''), svc')
                    else (Inr (question_loop w svc' gs (questions request) []), svc')))"

text \<open>The route: the dependency \<open>get_current_user\<close> runs first.\<close>

definition post_hackrx_run ::
  "world \<Rightarrow> embedding_service \<Rightarrow> groq_service \<Rightarrow> string \<Rightarrow> hackrx_request
     \<Rightarrow> (http_error + string list) \<times> embedding_service" where
  "post_hackrx_run w svc gs token request =
     (case get_current_user token of
        Inl e \<Rightarrow> (Inl e, svc)
      | Inr user \<Rightarrow> hackrx_run w svc gs request)"

text \<open>Stand-ins for concrete runs.\<close>

definition one_chunk :: "document list" where
  "one_chunk = [[''text'' \<mapsto> PyStr ''a'']]"

definition plain_world :: "string \<Rightarrow> world" where
  "plain_world text =
     \<lparr>extract_text = (\<lambda>url. Inr text), tokenizer = word_count, max_tokens_per_chunk = 1000,
      string_hash = salted_hash 0, md5_digest = length_digest, similarity = flat_score\<rparr>"

text \<open>A world in which the download answers with status 404, so that fetching raises.\<close>

definition failing_world :: world where
  "failing_world =
     \<lparr>extract_text = (\<lambda>url. Inl (DownloadError ''Failed to download document: 404'')),
      tokenizer = word_count, max_tokens_per_chunk = 1000,
      string_hash = salted_hash 0, md5_digest = length_digest, similarity = flat_score\<rparr>"

definition no_llm :: groq_service where
  "no_llm = \<lparr>client = None\<rparr>"

section \<open>Facts about the string functions\<close>

lemma isspace_nl: "isspace nl"
  by (simp add: isspace_def nl_def)

lemma split_by_not_Nil: "split_by P s \<noteq> []"
  by (induction s) (auto split: list.splits)

lemma split_by_no_sep: "w \<in> set (split_by P s) \<Longrightarrow> \<forall>c\<in>set w. \<not> P c"
proof (induction s arbitrary: w)
  case Nil
  then show ?case by simp
next
  case (Cons x xs)
  show ?case
  proof (cases "P x")
    case True
    with Cons show ?thesis by auto
  next
    case False
    obtain v vs where vs: "split_by P xs = v # vs"
      using split_by_not_Nil [of P xs] by (cases "split_by P xs") auto
    with False Cons.prems have "w = x # v \<or> w \<in> set vs" by auto
    then show ?thesis
    proof
      assume "w = x # v"
      moreover have "\<forall>c\<in>set v. \<not> P c" using Cons.IH [of v] vs by simp
      ultimately show ?thesis using False by simp
    next
      assume "w \<in> set vs"
      then show ?thesis using Cons.IH [of w] vs by simp
    qed
  qed
qed

lemma split_by_plain: "\<forall>c\<in>set w. \<not> P c \<Longrightarrow> split_by P w = [w]"
  by (induction w) auto

lemma split_by_append:
  "\<forall>c\<in>set w. \<not> P c \<Longrightarrow> P s \<Longrightarrow> split_by P (w @ s # rest) = w # split_by P rest"
  by (induction w) auto

lemma strip_subset: "set (strip s) \<subseteq> set s"
proof -
  have "set (strip s) = set (dropWhile isspace (rev (dropWhile isspace s)))"
    by (simp add: strip_def)
  also have "\<dots> \<subseteq> set (rev (dropWhile isspace s))"
    by (meson set_dropWhileD subsetI)
  also have "\<dots> \<subseteq> set s"
    using set_dropWhileD by fastforce
  finally show ?thesis .
qed

lemma strip_hd: "strip s \<noteq> [] \<Longrightarrow> \<not> isspace (hd (strip s))"
proof -
  assume ne: "strip s \<noteq> []"
  let ?d = "dropWhile isspace s"
  let ?e = "dropWhile isspace (rev ?d)"
  from ne have e: "?e \<noteq> []" by (simp add: strip_def)
  have d: "?d \<noteq> []"
  proof
    assume "?d = []"
    then have "?e = []" by (simp only: rev.simps dropWhile.simps)
    with e show False by (simp only: not_False_eq_True simp_thms)
  qed
  have "hd (strip s) = last ?e" using e by (simp add: strip_def hd_rev)
  also have "\<dots> = last (rev ?d)"
    using e by (metis last_appendR takeWhile_dropWhile_id)
  also have "\<dots> = hd ?d" using d by (simp add: last_rev)
  finally show ?thesis using d hd_dropWhile by metis
qed

lemma strip_last: "strip s \<noteq> [] \<Longrightarrow> \<not> isspace (last (strip s))"
proof -
  assume ne: "strip s \<noteq> []"
  let ?e = "dropWhile isspace (rev (dropWhile isspace s))"
  from ne have e: "?e \<noteq> []" by (simp add: strip_def)
  have "last (strip s) = hd ?e" using e by (simp add: strip_def last_rev)
  then show ?thesis using e hd_dropWhile by metis
qed

lemma strip_id: "s \<noteq> [] \<Longrightarrow> \<not> isspace (hd s) \<Longrightarrow> \<not> isspace (last s) \<Longrightarrow> strip s = s"
proof -
  assume ne: "s \<noteq> []" and h: "\<not> isspace (hd s)" and l: "\<not> isspace (last s)"
  from ne h have d: "dropWhile isspace s = s" by (cases s) auto
  from ne l have "dropWhile isspace (rev s) = rev s"
    by (cases "rev s") (auto simp: last_rev [symmetric] hd_rev)
  with d show ?thesis by (simp add: strip_def)
qed


lemma strip_strip: "strip (strip s) = strip s"
proof (cases "strip s = []")
  case True
  have "strip [] = []" by (simp add: strip_def)
  with True show ?thesis by simp
next
  case False
  then show ?thesis by (simp add: strip_id strip_hd strip_last)
qed

lemma join_snoc: "g \<noteq> [] \<Longrightarrow> join sep (g @ [p]) = join sep g @ sep @ p"
  by (induction sep g rule: join.induct) auto

lemma join_not_Nil: "g \<noteq> [] \<Longrightarrow> \<forall>p\<in>set g. p \<noteq> [] \<Longrightarrow> join sep g \<noteq> []"
  by (induction sep g rule: join.induct) auto

lemma hd_join: "g \<noteq> [] \<Longrightarrow> \<forall>p\<in>set g. p \<noteq> [] \<Longrightarrow> hd (join sep g) = hd (hd g)"
  by (induction sep g rule: join.induct) auto

lemma last_join:
  "g \<noteq> [] \<Longrightarrow> \<forall>p\<in>set g. p \<noteq> [] \<Longrightarrow> last (join sep g) = last (last g)"
proof (induction sep g rule: join.induct)
  case (3 sep x y ys)
  then have "join sep (y # ys) \<noteq> []" by (intro join_not_Nil) auto
  with 3 show ?case by simp
qed auto

lemma split_on_join:
  "g \<noteq> [] \<Longrightarrow> \<forall>p\<in>set g. c \<notin> set p \<Longrightarrow> split_on c (join [c] g) = g"
proof (induction "[c]" g rule: join.induct)
  case (2 x)
  then have "\<forall>z\<in>set x. \<not> z = c" by auto
  then show ?case by (simp add: split_on_def split_by_plain)
next
  case (3 x y ys)
  then have "split_by (\<lambda>z. z = c) (x @ c # join [c] (y # ys)) = x # split_by (\<lambda>z. z = c) (join [c] (y # ys))"
    by (intro split_by_append) auto
  with 3 show ?case by (simp add: split_on_def)
qed simp

section \<open>Facts about the chunker\<close>

lemma paragraphs_trimmed: "p \<in> set (paragraphs_of text) \<Longrightarrow> trimmed p"
  by (auto simp: paragraphs_of_def trimmed_def strip_hd strip_last)

lemma paragraphs_no_nl: "p \<in> set (paragraphs_of text) \<Longrightarrow> nl \<notin> set p"
proof -
  assume "p \<in> set (paragraphs_of text)"
  then obtain ln where mem: "ln \<in> set (split_on nl text)" and p: "p = strip ln"
    by (auto simp: paragraphs_of_def)
  have "\<forall>c\<in>set ln. \<not> c = nl"
    by (rule split_by_no_sep [of ln _ "text"]) (use mem in \<open>simp add: split_on_def\<close>)
  then have "nl \<notin> set ln" by auto
  with p show ?thesis using strip_subset [of ln] by auto
qed

lemma strip_join_trimmed:
  assumes "g \<noteq> []" and "\<forall>p\<in>set g. trimmed p"
  shows "strip (join [nl] g) = join [nl] g"
proof -
  from assms have ne: "\<forall>p\<in>set g. p \<noteq> []" by (simp add: trimmed_def)
  have "join [nl] g \<noteq> []" using assms(1) ne by (rule join_not_Nil)
  moreover have "\<not> isspace (hd (join [nl] g))"
    using assms hd_join [OF assms(1) ne] by (simp add: trimmed_def)
  moreover have "\<not> isspace (last (join [nl] g))"
    using assms last_join [OF assms(1) ne] by (simp add: trimmed_def)
  ultimately show ?thesis by (rule strip_id)
qed

text \<open>The two loops run in lockstep: the text loop holds the joined groups.\<close>

lemma chunk_loop_groups:
  assumes "\<forall>p\<in>set ps. trimmed p" and "\<forall>p\<in>set g. trimmed p"
  shows "chunk_loop tok mx ps (map (join [nl]) gs, join [nl] g, n) =
           (case group_loop tok mx ps (gs, g, n) of
              (gs', g', n') \<Rightarrow> (map (join [nl]) gs', join [nl] g', n'))
         \<and> (\<forall>p\<in>set (fst (snd (group_loop tok mx ps (gs, g, n)))). trimmed p)"
  using assms
proof (induction ps arbitrary: gs g n)
  case Nil
  then show ?case by simp
next
  case (Cons p ps)
  have tp: "trimmed p" using Cons.prems(1) by simp
  have ps: "\<forall>q\<in>set ps. trimmed q" using Cons.prems(1) by simp
  have iff: "join [nl] g \<noteq> [] \<longleftrightarrow> g \<noteq> []"
    using Cons.prems(2) join_not_Nil [of g "[nl]"] by (auto simp: trimmed_def)
  show ?case
  proof (cases "int (n + tok p) > mx \<and> g \<noteq> []")
    case True
    then have s: "strip (join [nl] g) = join [nl] g"
      using Cons.prems(2) by (simp add: strip_join_trimmed)
    have "\<forall>q\<in>set [p]. trimmed q" using tp by simp
    from Cons.IH [OF ps this, of "gs @ [g]" "tok p"] True s iff
    show ?thesis by simp
  next
    case False
    have j: "(if join [nl] g \<noteq> [] then join [nl] g @ [nl] @ p else p) = join [nl] (g @ [p])"
      using iff by (cases "g = []") (simp_all add: join_snoc)
    have "\<forall>q\<in>set (g @ [p]). trimmed q" using tp Cons.prems(2) by simp
    from False have
      c: "chunk_loop tok mx (p # ps) (map (join [nl]) gs, join [nl] g, n) =
            chunk_loop tok mx ps (map (join [nl]) gs, join [nl] (g @ [p]), n + tok p)"
      using iff j by (auto simp: Let_def simp del: join.simps)
    have
      d: "group_loop tok mx (p # ps) (gs, g, n) = group_loop tok mx ps (gs, g @ [p], n + tok p)"
      using False by (auto simp: Let_def)
    have tg: "\<forall>q\<in>set (g @ [p]). trimmed q" using tp Cons.prems(2) by simp
    from Cons.IH [OF ps tg, of gs "n + tok p"] show ?thesis
      unfolding c d .
  qed
qed

lemma split_into_chunks_groups:
  "split_into_chunks tok mx text =
     map (join [nl]) (chunk_groups tok mx (paragraphs_of text))"
proof -
  let ?ps = "paragraphs_of text"
  obtain gs g n where r: "group_loop tok mx ?ps ([], [], 0) = (gs, g, n)"
    by (cases "group_loop tok mx ?ps ([], [], 0)") auto
  have tr: "\<forall>p\<in>set ?ps. trimmed p" by (simp add: paragraphs_trimmed)
  have "\<forall>p\<in>set ([]::string list). trimmed p" by simp
  from chunk_loop_groups [OF tr this, of tok mx "[]" 0] r
  have c: "chunk_loop tok mx ?ps ([], [], 0) = (map (join [nl]) gs, join [nl] g, n)"
    and tg: "\<forall>p\<in>set g. trimmed p" by simp_all
  have iff: "join [nl] g \<noteq> [] \<longleftrightarrow> g \<noteq> []"
    using tg join_not_Nil [of g "[nl]"] by (auto simp: trimmed_def)
  show ?thesis
  proof (cases "g = []")
    case True
    with c r show ?thesis by (simp add: split_into_chunks_def chunk_groups_def)
  next
    case False
    then have "strip (join [nl] g) = join [nl] g" using tg by (simp add: strip_join_trimmed)
    with c r False iff show ?thesis by (simp add: split_into_chunks_def chunk_groups_def)
  qed
qed

text \<open>The groups, in order, are the paragraphs: none is lost, none is repeated.\<close>

lemma group_loop_concat:
  "group_loop tok mx ps (gs, g, n) = (gs', g', n') \<Longrightarrow>
     concat gs' @ g' = concat gs @ g @ ps"
  by (induction ps arbitrary: gs g n) (auto simp: Let_def split: if_splits)

lemma chunk_groups_concat: "concat (chunk_groups tok mx ps) = ps"
proof -
  obtain gs g n where r: "group_loop tok mx ps ([], [], 0) = (gs, g, n)"
    by (cases "group_loop tok mx ps ([], [], 0)") auto
  from group_loop_concat [OF r] have "concat gs @ g = ps" by simp
  then show ?thesis using r
    by (cases "g = []") (simp_all add: chunk_groups_def)
qed

lemma group_loop_ok:
  assumes "group_loop tok mx ps (gs, g, n) = (gs', g', n')"
    and "list_all (group_ok tok mx) gs"
    and "g = [] \<or> group_ok tok mx g"
    and "n = sum_list (map tok g)"
  shows "list_all (group_ok tok mx) gs' \<and> (g' = [] \<or> group_ok tok mx g')"
  using assms
proof (induction ps arbitrary: gs g n)
  case Nil
  then show ?case by simp
next
  case (Cons p ps)
  show ?case
  proof (cases "int (n + tok p) > mx \<and> g \<noteq> []")
    case True
    with Cons.prems have r: "group_loop tok mx ps (gs @ [g], [p], tok p) = (gs', g', n')"
      by simp
    have a: "list_all (group_ok tok mx) (gs @ [g])" using Cons.prems True by simp
    have b: "[p] = [] \<or> group_ok tok mx [p]" by (simp add: group_ok_def)
    show ?thesis by (rule Cons.IH [OF r a b]) simp
  next
    case False
    with Cons.prems have r: "group_loop tok mx ps (gs, g @ [p], n + tok p) = (gs', g', n')"
      by auto
    have b: "g @ [p] = [] \<or> group_ok tok mx (g @ [p])"
      using False Cons.prems(4) by (cases "g = []") (auto simp: group_ok_def)
    show ?thesis by (rule Cons.IH [OF r Cons.prems(2) b]) (simp add: Cons.prems(4))
  qed
qed

lemma chunk_groups_ok: "list_all (group_ok tok mx) (chunk_groups tok mx ps)"
proof -
  obtain gs g n where r: "group_loop tok mx ps ([], [], 0) = (gs, g, n)"
    by (cases "group_loop tok mx ps ([], [], 0)") auto
  have "list_all (group_ok tok mx) gs \<and> (g = [] \<or> group_ok tok mx g)"
    by (rule group_loop_ok [OF r]) simp_all
  with r show ?thesis by (auto simp: chunk_groups_def)
qed

section \<open>Facts about the surrogate embedder\<close>

lemma hex_value_digit: "n < 16 \<Longrightarrow> hex_value (hex_digit n) = Some n"
  by (auto simp: hex_value_def hex_digit_def Let_def)

lemma int16_hex_byte: "b < 256 \<Longrightarrow> int16 (hex_byte b) = Inr b"
proof -
  assume "b < 256"
  then have "b div 16 < 16" "b mod 16 < 16" by auto
  then show ?thesis
    by (simp add: int16_def hex_byte_def hex_value_digit)
qed

lemma pad_loop_replicate: "pad_loop v = v @ replicate (128 - length v) 0"
proof (induction v rule: pad_loop.induct)
  case (1 v)
  show ?case
  proof (cases "length v < 128")
    case True
    have "pad_loop v = pad_loop (v @ [0])" using True by (subst pad_loop.simps) simp
    also have "\<dots> = (v @ [0]) @ replicate (128 - length (v @ [0])) 0"
      using 1 True by simp
    also have "\<dots> = v @ replicate (Suc (127 - length v)) 0" by simp
    also have "Suc (127 - length v) = 128 - length v" using True by simp
    finally show ?thesis .
  next
    case False
    then show ?thesis by simp
  qed
qed


lemma byte_mask: "(255 :: 128 word) = mask 8"
  by (simp add: mask_eq_exp_minus_1)

lemma digest_byte_less: "unat (drop_bit n (d :: 128 word) AND 255) < 256"
proof -
  have "drop_bit n d AND 255 \<le> 255" by (rule word_and_le1)
  then have "unat (drop_bit n d AND 255) \<le> unat (255 :: 128 word)" by (simp add: word_le_nat_alt)
  then show ?thesis by simp
qed

lemma digest_bytes_less: "b \<in> set (digest_bytes d) \<Longrightarrow> b < 256"
  by (auto simp: digest_bytes_def digest_byte_less)

lemma length_digest_bytes: "length (digest_bytes d) = 16"
  by (simp add: digest_bytes_def)

lemma digest_bytes_inj: "digest_bytes d1 = digest_bytes d2 \<Longrightarrow> d1 = d2"
proof (rule bit_word_eqI)
  fix n assume eq: "digest_bytes d1 = digest_bytes d2" and n: "n < LENGTH(128)"
  let ?k = "15 - n div 8"
  have k: "?k < 16" by simp
  have m: "8 * (15 - ?k) = 8 * (n div 8)" using n by simp
  from eq have "digest_bytes d1 ! ?k = digest_bytes d2 ! ?k" by simp
  then have "unat (drop_bit (8 * (n div 8)) d1 AND 255) = unat (drop_bit (8 * (n div 8)) d2 AND 255)"
    using k m by (simp add: digest_bytes_def del: upt_Suc)
  then have w: "drop_bit (8 * (n div 8)) d1 AND mask 8 = drop_bit (8 * (n div 8)) d2 AND mask 8"
    by (simp add: byte_mask word_unat_eq_iff)
  have lt: "n mod 8 < 128" by (rule less_trans [of _ 8]) simp_all
  have "bit (drop_bit (8 * (n div 8)) d1 AND mask 8) (n mod 8) = bit d1 n" for d1 :: "128 word"
    by (simp add: bit_and_iff bit_drop_bit_eq bit_mask_iff lt)
  with w show "bit d1 n = bit d2 n" by metis
qed

lemma pair_loop_bytes:
  assumes "\<forall>b\<in>set bs. b < 256" and "length v + length bs \<le> 128"
  shows "pair_loop (pre @ concat (map hex_byte bs)) (map (\<lambda>k. length pre + 2 * k) [0..<length bs]) v
           = Inr (v @ map (\<lambda>b. of_nat b / 255) bs)"
  using assms
proof (induction bs arbitrary: pre v)
  case Nil
  then show ?case by simp
next
  case (Cons b bs)
  have idx: "map (\<lambda>k. length pre + 2 * k) [0..<length (b # bs)] =
               length pre # map (\<lambda>k. length (pre @ hex_byte b) + 2 * k) [0..<length bs]"
    by (simp add: upt_conv_Cons map_Suc_upt [symmetric] hex_byte_def del: upt_Suc)
  have tk: "take 2 (drop (length pre) (pre @ concat (map hex_byte (b # bs)))) = hex_byte b"
    by (simp add: hex_byte_def)
  have b: "int16 (hex_byte b) = Inr b" using Cons.prems(1) by (simp add: int16_hex_byte)
  have lv: "\<not> 128 \<le> length v" using Cons.prems(2) by simp
  have "pair_loop (pre @ concat (map hex_byte (b # bs)))
          (map (\<lambda>k. length pre + 2 * k) [0..<length (b # bs)]) v =
        pair_loop ((pre @ hex_byte b) @ concat (map hex_byte bs))
          (map (\<lambda>k. length (pre @ hex_byte b) + 2 * k) [0..<length bs]) (v @ [of_nat b / 255])"
    unfolding idx using tk b lv by simp
  also have "\<dots> = Inr ((v @ [of_nat b / 255]) @ map (\<lambda>b. of_nat b / 255) bs)"
    using Cons.prems by (intro Cons.IH) auto
  finally show ?case by simp
qed

lemma length_hex_bytes: "length (concat (map hex_byte bs)) = 2 * length bs"
  by (induction bs) (simp_all add: hex_byte_def)

lemma simple_text_to_vector_eq:
  "simple_text_to_vector md5 text =
     Inr (map (\<lambda>b. of_nat b / 255) (digest_bytes (md5 text)) @ replicate 112 0)"
proof -
  let ?bs = "digest_bytes (md5 text)"
  have len: "length (hexdigest (md5 text)) = 32"
    by (simp add: hexdigest_def length_hex_bytes length_digest_bytes)
  have r: "range_step2 32 = map (\<lambda>k. length ([]::string) + 2 * k) [0..<length ?bs]"
    by (simp add: range_step2_def length_digest_bytes)
  have "pair_loop ([] @ concat (map hex_byte ?bs)) (map (\<lambda>k. length ([]::string) + 2 * k) [0..<length ?bs]) []
          = Inr ([] @ map (\<lambda>b. of_nat b / 255) ?bs)"
    by (rule pair_loop_bytes) (simp_all add: digest_bytes_less length_digest_bytes)
  then have "pair_loop (hexdigest (md5 text)) (range_step2 32) [] = Inr (map (\<lambda>b. of_nat b / 255) ?bs)"
    unfolding r by (simp add: hexdigest_def)
  then show ?thesis
    by (simp add: simple_text_to_vector_def len pad_loop_replicate length_digest_bytes
        del: pad_loop.simps)
qed

section \<open>Facts about the fallback heuristics\<close>

lemma eval_parse_grace:
  "fallback_parse_query ''What is the grace period for premium payment?'' =
     \<lparr>intent = ''find_period'', entities = [''grace period'', ''premium''], conditions = []\<rparr>"
  by code_simp

lemma eval_knee:
  "fallback_evaluate_clause ''Is knee surgery covered?''
     ''Knee surgery is covered under this policy.'' =
   \<lparr>answer = ''yes'', direct_answer = ''Knee surgery is covered under this policy.'',
    explanation = ''Clause contains 3 relevant keywords'', confidence = 3 / 4\<rparr>"
  by code_simp

lemma overlap_ratio:
  fixes A B :: "string set"
  assumes "finite A" and "card A \<noteq> 0"
  shows "min ((of_nat (card (A \<inter> B)) :: rat) / of_nat (card A)) 1 = of_nat (card (A \<inter> B)) / of_nat (card A)"
    and "(0::rat) \<le> of_nat (card (A \<inter> B)) / of_nat (card A)"
    and "(of_nat (card (A \<inter> B)) :: rat) / of_nat (card A) \<le> 1"
proof -
  have "card (A \<inter> B) \<le> card A" using assms(1) by (simp add: card_mono)
  then have le: "(of_nat (card (A \<inter> B)) :: rat) \<le> of_nat (card A)" by simp
  have pos: "(0::rat) < of_nat (card A)" using assms(2) by simp
  show 3: "(of_nat (card (A \<inter> B)) :: rat) / of_nat (card A) \<le> 1"
    using le pos by (simp add: divide_le_eq)
  then show "min ((of_nat (card (A \<inter> B)) :: rat) / of_nat (card A)) 1 = of_nat (card (A \<inter> B)) / of_nat (card A)"
    by (simp add: min_def)
  show "(0::rat) \<le> of_nat (card (A \<inter> B)) / of_nat (card A)" by simp
qed

lemma confidence_eq:
  "confidence (fallback_evaluate_clause q c) =
     (if card (set (split_ws (lower q))) = 0 then 0
      else of_nat (card (set (split_ws (lower q)) \<inter> set (split_ws (lower c))))
             / of_nat (card (set (split_ws (lower q)))))"
proof (cases "card (set (split_ws (lower q))) = 0")
  case True
  then show ?thesis by (simp add: fallback_evaluate_clause_def Let_def)
next
  case False
  have "finite (set (split_ws (lower q)))" by simp
  from overlap_ratio(1) [OF this False, of "set (split_ws (lower c))"] False
  show ?thesis by (simp add: fallback_evaluate_clause_def Let_def)
qed

lemma sentence_loop_filter:
  "sentence_loop qw ss acc =
     acc @ map strip (filter (\<lambda>s. list_ex (\<lambda>w. py_in w (lower s)) qw) ss)"
  by (induction ss arbitrary: acc) (simp_all add: Let_def)

lemma endswith_char: "endswith s [c] \<longleftrightarrow> s \<noteq> [] \<and> last s = c"
proof (cases s rule: rev_cases)
  case Nil
  then show ?thesis by (simp add: endswith_def)
next
  case (snoc ys y)
  then show ?thesis by (auto simp: endswith_def suffix_def)
qed

lemma join_no_final_char:
  assumes "\<forall>s\<in>set xs. c \<notin> set s" and "sep \<noteq> []" and "last sep \<noteq> c"
  shows "\<not> endswith (join sep xs) [c]"
  using assms
proof (induction sep xs rule: join.induct)
  case (1 sep)
  then show ?case by (simp add: endswith_char)
next
  case (2 sep x)
  then show ?case by (auto simp: endswith_char)
next
  case (3 sep x y ys)
  then have ih: "\<not> endswith (join sep (y # ys)) [c]" by simp
  show ?case
  proof (cases "join sep (y # ys) = []")
    case True
    with 3 show ?thesis by (simp add: endswith_char)
  next
    case False
    with ih show ?thesis by (simp add: endswith_char)
  qed
qed

lemma sentences_no_period:
  "s \<in> set (map strip (filter P (split_on (CHR ''.'') t))) \<Longrightarrow> CHR ''.'' \<notin> set s"
proof -
  assume "s \<in> set (map strip (filter P (split_on (CHR ''.'') t)))"
  then obtain r where r: "r \<in> set (split_on (CHR ''.'') t)" and s: "s = strip r" by auto
  have "\<forall>c\<in>set r. \<not> c = CHR ''.''"
    by (rule split_by_no_sep [of r _ t]) (use r in \<open>simp add: split_on_def\<close>)
  then have "CHR ''.'' \<notin> set r" by auto
  with s show ?thesis using strip_subset [of r] by auto
qed


section \<open>Facts about the vector index\<close>















section \<open>Facts about the request handler\<close>

lemma question_loop_map:
  "question_loop w svc gs qs answers = answers @ map (answer_question w svc gs) qs"
  by (induction qs arbitrary: answers) simp_all

lemma split_into_chunks_Nil: "split_into_chunks tok mx [] = []"
  by (simp add: split_into_chunks_def paragraphs_of_def split_on_def strip_def)

lemma eval_no_chunks:
  "process_document_from_url (plain_world []) ''u'' = Inr []"
  by (simp add: process_document_from_url_def plain_world_def split_into_chunks_Nil)

lemma eval_download_fails:
  "process_document_from_url failing_world ''u'' =
     Inl (DownloadError ''Failed to download document: 404'')"
  by (simp add: process_document_from_url_def failing_world_def)

lemma eval_split_a: "split_into_chunks word_count 1000 ''a'' = [''a'']"
  by code_simp

lemma eval_one_chunk:
  "process_document_from_url (plain_world ''a'') ''u'' =
     Inr (chunk_metadata word_count ''u'' 1 0 [''a''])"
  by (simp add: process_document_from_url_def plain_world_def eval_split_a)

lemma eval_answers:
  "fst (post_hackrx_run (plain_world ''a'') \<lparr>pc = Some empty_backend\<rparr> no_llm expected_key
      \<lparr>documents = ''u'', questions = [''q1'', ''q2'']\<rparr>) = Inr [''a'', ''a'']"
  by code_simp

section \<open>Claims about the chunker\<close>

lemma eval_groups_oversized:
  "chunk_groups word_count 2 (paragraphs_of ''a b c\<newline>d\<newline>e'') = [[''a b c''], [''d'', ''e'']]"
  by code_simp

text \<open>
  Claim C1, as the code has it.  Every chunk returned by \<open>split_into_chunks\<close> is the
  line-feed join of one group of consecutive paragraphs; the groups, in order, make up the
  paragraph list; and for every group the token counts of its paragraphs, each counted on
  its own as the loop does in \<open>current_tokens\<close>, add up to at most
  \<open>max_tokens_per_chunk\<close>, unless the group is a single paragraph whose own count
  exceeds the maximum.  The bound is on that running sum: the line feeds that join the
  paragraphs are never counted.
\<close>

theorem split_into_chunks_running_bound:
  "split_into_chunks tok mx text = map (join [nl]) (chunk_groups tok mx (paragraphs_of text))
   \<and> concat (chunk_groups tok mx (paragraphs_of text)) = paragraphs_of text
   \<and> (\<forall>g \<in> set (chunk_groups tok mx (paragraphs_of text)).
         int (sum_list (map tok g)) \<le> mx \<or> (\<exists>p. g = [p] \<and> mx < int (tok p)))"
proof (intro conjI ballI)
  show "split_into_chunks tok mx text = map (join [nl]) (chunk_groups tok mx (paragraphs_of text))"
    by (rule split_into_chunks_groups)
  show "concat (chunk_groups tok mx (paragraphs_of text)) = paragraphs_of text"
    by (rule chunk_groups_concat)
next
  fix g assume "g \<in> set (chunk_groups tok mx (paragraphs_of text))"
  then have ok: "group_ok tok mx g"
    using chunk_groups_ok [of tok mx "paragraphs_of text"] by (simp add: list_all_iff)
  show "int (sum_list (map tok g)) \<le> mx \<or> (\<exists>p. g = [p] \<and> mx < int (tok p))"
  proof (cases "int (sum_list (map tok g)) \<le> mx")
    case True
    then show ?thesis by simp
  next
    case False
    with ok have "length g = 1" by (simp add: group_ok_def)
    then obtain p where "g = [p]" by (cases g) auto
    with False show ?thesis by simp
  qed
qed

text \<open>
  The theorem at a three-word paragraph followed by two one-word paragraphs, with the
  word-count estimate and a maximum of 2: the first paragraph is an oversized chunk of its
  own, the other two share a chunk.
\<close>

theorem split_into_chunks_running_bound_witness:
  "chunk_groups word_count 2 (paragraphs_of ''a b c\<newline>d\<newline>e'') = [[''a b c''], [''d'', ''e'']]
   \<and> split_into_chunks word_count 2 ''a b c\<newline>d\<newline>e'' = [''a b c'', ''d\<newline>e'']
   \<and> 2 < int (word_count ''a b c'')
   \<and> int (sum_list (map word_count [''d'', ''e''])) \<le> 2"
proof -
  have w: "word_count ''a b c'' = 3" "word_count ''d'' = 1" "word_count ''e'' = 1"
    by code_simp+
  show ?thesis
    using split_into_chunks_running_bound [of word_count 2 "''a b c\<newline>d\<newline>e''"]
    unfolding eval_groups_oversized
    by (simp add: nl_def w)
qed

text \<open>
  Claim C1 as stated fails when the token count of a chunk is taken of the chunk's own
  text.  Two one-token paragraphs fit a maximum of 2 by the running sum and are joined;
  the joined text has three tokens (letter, line feed, letter) and is not a single
  paragraph.
\<close>

theorem split_into_chunks_bound_counterexample:
  "split_into_chunks line_tokens 2 ''a\<newline>b'' = [''a\<newline>b'']
   \<and> line_tokens ''a'' = 1 \<and> line_tokens ''b'' = 1
   \<and> \<not> int (line_tokens ''a\<newline>b'') \<le> 2
   \<and> ''a\<newline>b'' \<notin> set (paragraphs_of ''a\<newline>b'')"
  by code_simp

text \<open>
  Claim C4, as the code has it.  Cutting the returned chunks at the line feeds gives
  back, in order and without loss or repetition, the non-blank lines of the input, each
  with its leading and trailing whitespace removed; the empty text gives no chunk.
\<close>

theorem split_into_chunks_preserves_lines:
  "concat (map (split_on nl) (split_into_chunks tok mx text)) =
     map strip (filter (\<lambda>l. strip l \<noteq> []) (split_on nl text))
   \<and> split_into_chunks tok mx [] = []"
proof
  let ?ps = "paragraphs_of text"
  let ?gs = "chunk_groups tok mx ?ps"
  have mem: "\<forall>g\<in>set ?gs. g \<noteq> [] \<and> (\<forall>p\<in>set g. nl \<notin> set p)"
  proof
    fix g assume g: "g \<in> set ?gs"
    then have "group_ok tok mx g"
      using chunk_groups_ok [of tok mx ?ps] by (simp add: list_all_iff)
    then have "g \<noteq> []" by (simp add: group_ok_def)
    moreover have "set g \<subseteq> set ?ps"
      using g chunk_groups_concat [of tok mx ?ps] by (metis UN_I set_concat subsetI)
    ultimately show "g \<noteq> [] \<and> (\<forall>p\<in>set g. nl \<notin> set p)"
      using paragraphs_no_nl by blast
  qed
  have "map (split_on nl) (map (join [nl]) ?gs) = ?gs"
    using mem by (simp add: map_idI split_on_join)
  then have "concat (map (split_on nl) (split_into_chunks tok mx text)) = ?ps"
    by (simp only: split_into_chunks_groups chunk_groups_concat)
  then show "concat (map (split_on nl) (split_into_chunks tok mx text)) =
     map strip (filter (\<lambda>l. strip l \<noteq> []) (split_on nl text))"
    by (simp add: paragraphs_of_def)
next
  show "split_into_chunks tok mx [] = []"
    by (simp add: split_into_chunks_def paragraphs_of_def split_on_def strip_def)
qed

text \<open>
  Claim C4 as stated fails on a line that starts with a blank: the line is not blank, its
  first character is dropped, and the concatenated chunks differ from the line.
\<close>

theorem split_into_chunks_drops_whitespace_counterexample:
  "split_into_chunks word_count 1000 '' a b'' = [''a b'']
   \<and> split_on nl '' a b'' = ['' a b'']
   \<and> concat (split_into_chunks word_count 1000 '' a b'') \<noteq> concat (split_on nl '' a b'')"
  by code_simp

lemma component_inj: "inj (\<lambda>b::nat. (of_nat b :: rat) / 255)"
  by (rule injI) simp

lemma components_eq:
  "map (\<lambda>b::nat. (of_nat b :: rat) / 255) xs = map (\<lambda>b. of_nat b / 255) ys \<longleftrightarrow> xs = ys"
  using component_inj by (rule inj_map_eq_map)

lemma vector_eq_iff:
  "simple_text_to_vector md5 t1 = simple_text_to_vector md5 t2 \<longleftrightarrow> md5 t1 = md5 t2"
proof
  assume "simple_text_to_vector md5 t1 = simple_text_to_vector md5 t2"
  then have "digest_bytes (md5 t1) = digest_bytes (md5 t2)"
    by (simp add: simple_text_to_vector_eq components_eq)
  then show "md5 t1 = md5 t2" by (rule digest_bytes_inj)
next
  assume "md5 t1 = md5 t2"
  then show "simple_text_to_vector md5 t1 = simple_text_to_vector md5 t2"
    by (simp add: simple_text_to_vector_def)
qed

section \<open>Claims about the surrogate embedder\<close>

text \<open>
  Claim C3.  The surrogate embedder is a function of the text alone: it never fails,
  embedding a text twice gives the same vector both times, the vector has 128 components,
  each between 0 and 1, and two texts get the same vector exactly when their MD5 digests
  are equal.
\<close>

theorem simple_text_to_vector_pure:
  "(\<exists>v. simple_text_to_vector md5 text = Inr v \<and> length v = 128
        \<and> list_all (\<lambda>x. 0 \<le> x \<and> x \<le> 1) v
        \<and> get_embeddings md5 [text, text] = [v, v])
   \<and> (simple_text_to_vector md5 t1 = simple_text_to_vector md5 t2 \<longleftrightarrow> md5 t1 = md5 t2)"
proof
  let ?v = "map (\<lambda>b. of_nat b / 255) (digest_bytes (md5 text)) @ replicate 112 (0::rat)"
  have v: "simple_text_to_vector md5 text = Inr ?v" by (rule simple_text_to_vector_eq)
  have len: "length ?v = 128" by (simp add: length_digest_bytes)
  have "\<forall>b\<in>set (digest_bytes (md5 text)). b \<le> 255"
    using digest_bytes_less [of _ "md5 text"] by fastforce
  then have rng: "list_all (\<lambda>x. 0 \<le> x \<and> x \<le> 1) ?v"
    by (simp add: list_all_iff)
  have twice: "get_embeddings md5 [text, text] = [?v, ?v]"
    by (simp add: get_embeddings_def v)
  from v len rng twice
  show "\<exists>v. simple_text_to_vector md5 text = Inr v \<and> length v = 128
        \<and> list_all (\<lambda>x. 0 \<le> x \<and> x \<le> 1) v
        \<and> get_embeddings md5 [text, text] = [v, v]"
    by blast
next
  show "simple_text_to_vector md5 t1 = simple_text_to_vector md5 t2 \<longleftrightarrow> md5 t1 = md5 t2"
    by (rule vector_eq_iff)
qed

text \<open>
  Claim C10.  The vector is the 16 digest bytes, each divided by 255, followed by 112
  zeros: the components 16 to 127 are 0 for every text, so the components after the first
  16 are the same for any two texts.
\<close>

theorem simple_text_to_vector_zero_tail:
  "(\<exists>v. simple_text_to_vector md5 text = Inr v \<and> length v = 128
        \<and> take 16 v = map (\<lambda>b. of_nat b / 255) (digest_bytes (md5 text))
        \<and> drop 16 v = replicate 112 0)
   \<and> map_sum id (drop 16) (simple_text_to_vector md5 t1) =
       map_sum id (drop 16) (simple_text_to_vector md5 t2)"
proof
  let ?v = "map (\<lambda>b. of_nat b / 255) (digest_bytes (md5 text)) @ replicate 112 (0::rat)"
  have "simple_text_to_vector md5 text = Inr ?v" by (rule simple_text_to_vector_eq)
  moreover have "length ?v = 128" by (simp add: length_digest_bytes)
  moreover have "take 16 ?v = map (\<lambda>b. of_nat b / 255) (digest_bytes (md5 text))"
    by (simp add: length_digest_bytes)
  moreover have "drop 16 ?v = replicate 112 0"
    by (simp add: length_digest_bytes)
  ultimately
  show "\<exists>v. simple_text_to_vector md5 text = Inr v \<and> length v = 128
        \<and> take 16 v = map (\<lambda>b. of_nat b / 255) (digest_bytes (md5 text))
        \<and> drop 16 v = replicate 112 0"
    by blast
next
  show "map_sum id (drop 16) (simple_text_to_vector md5 t1) =
        map_sum id (drop 16) (simple_text_to_vector md5 t2)"
    by (simp add: simple_text_to_vector_eq length_digest_bytes)
qed

section \<open>Claims about the fallback heuristics\<close>

text \<open>
  Claim C7, as the code has it.  For every question the fallback query parser returns no
  conditions; its entities are the vocabulary keywords, in vocabulary order, that occur in
  the lower-cased question, where \<open>ncd\<close> is also reported when the phrase
  \<open>no claim discount\<close> occurs; and the intent follows the fixed priority: \<open>grace\<close> or
  \<open>waiting\<close> give \<open>find_period\<close>, else \<open>premium\<close> or \<open>payment\<close> give
  \<open>find_payment_info\<close>, else \<open>coverage\<close> or \<open>benefit\<close> give \<open>find_coverage\<close>, else
  \<open>claim\<close> or \<open>ncd\<close> give \<open>find_claim_info\<close>, else \<open>general_query\<close>.  For the
  question about the grace period for premium payment the entities are \<open>grace period\<close> and
  \<open>premium\<close> and the intent is \<open>find_period\<close>.
\<close>

theorem fallback_parse_query_entities_intent:
  "conditions (fallback_parse_query q) = []
   \<and> entities (fallback_parse_query q) =
       filter (\<lambda>k. py_in k (lower q) \<or> (k = ''ncd'' \<and> py_in ''no claim discount'' (lower q)))
         vocabulary
   \<and> intent (fallback_parse_query q) =
       (if py_in ''grace'' (lower q) \<or> py_in ''waiting'' (lower q) then ''find_period''
        else if py_in ''premium'' (lower q) \<or> py_in ''payment'' (lower q) then ''find_payment_info''
        else if py_in ''coverage'' (lower q) \<or> py_in ''benefit'' (lower q) then ''find_coverage''
        else if py_in ''claim'' (lower q) \<or> py_in ''ncd'' (lower q) then ''find_claim_info''
        else ''general_query'')
   \<and> entities (fallback_parse_query ''What is the grace period for premium payment?'') =
       [''grace period'', ''premium'']
   \<and> intent (fallback_parse_query ''What is the grace period for premium payment?'') =
       ''find_period''"
proof (intro conjI)
  show "conditions (fallback_parse_query q) = []"
    by (simp add: fallback_parse_query_def Let_def)
  show "entities (fallback_parse_query q) =
       filter (\<lambda>k. py_in k (lower q) \<or> (k = ''ncd'' \<and> py_in ''no claim discount'' (lower q)))
         vocabulary"
    by (simp add: fallback_parse_query_def Let_def vocabulary_def kw_def)
  show "intent (fallback_parse_query q) =
       (if py_in ''grace'' (lower q) \<or> py_in ''waiting'' (lower q) then ''find_period''
        else if py_in ''premium'' (lower q) \<or> py_in ''payment'' (lower q) then ''find_payment_info''
        else if py_in ''coverage'' (lower q) \<or> py_in ''benefit'' (lower q) then ''find_coverage''
        else if py_in ''claim'' (lower q) \<or> py_in ''ncd'' (lower q) then ''find_claim_info''
        else ''general_query'')"
    by (simp add: fallback_parse_query_def Let_def)
  show "entities (fallback_parse_query ''What is the grace period for premium payment?'') =
       [''grace period'', ''premium'']"
    by (simp add: eval_parse_grace)
  show "intent (fallback_parse_query ''What is the grace period for premium payment?'') =
       ''find_period''"
    by (simp add: eval_parse_grace)
qed

text \<open>
  Claim C7 as stated fails on the question \<open>no claim discount\<close>: the entity \<open>ncd\<close> is
  reported although \<open>ncd\<close> does not occur in the question.
\<close>

theorem fallback_parse_query_ncd_counterexample:
  "entities (fallback_parse_query ''no claim discount'') = [''claim'', ''ncd'']
   \<and> \<not> py_in ''ncd'' (lower ''no claim discount'')"
  by code_simp

text \<open>
  Claim C2.  For every question and clause the fallback evaluation has as confidence the
  number of distinct lower-cased question words that are also clause words, divided by the
  number of distinct question words (0 for a question without words); the confidence lies
  between 0 and 1; the answer is \<open>yes\<close> exactly when the confidence exceeds 3/10 and
  \<open>no\<close> otherwise; the direct answer is the fixed no-relevant-information string when the
  answer is \<open>no\<close>, and otherwise the clause, cut to its first 200 characters followed by
  three dots when it is longer than 200.  For the knee-surgery question and clause the
  confidence exceeds 3/10 and the answer is \<open>yes\<close>.
\<close>

theorem fallback_evaluate_clause_overlap:
  "confidence (fallback_evaluate_clause q c) =
     (if card (set (split_ws (lower q))) = 0 then 0
      else of_nat (card (set (split_ws (lower q)) \<inter> set (split_ws (lower c))))
             / of_nat (card (set (split_ws (lower q)))))
   \<and> 0 \<le> confidence (fallback_evaluate_clause q c)
   \<and> confidence (fallback_evaluate_clause q c) \<le> 1
   \<and> (answer (fallback_evaluate_clause q c) = ''yes'' \<longleftrightarrow>
        confidence (fallback_evaluate_clause q c) > 3 / 10)
   \<and> (answer (fallback_evaluate_clause q c) = ''no'' \<longleftrightarrow>
        \<not> confidence (fallback_evaluate_clause q c) > 3 / 10)
   \<and> direct_answer (fallback_evaluate_clause q c) =
       (if answer (fallback_evaluate_clause q c) = ''no'' then ''No relevant information found''
        else if length c > 200 then take 200 c @ ''...'' else c)
   \<and> confidence (fallback_evaluate_clause ''Is knee surgery covered?''
        ''Knee surgery is covered under this policy.'') > 3 / 10
   \<and> answer (fallback_evaluate_clause ''Is knee surgery covered?''
        ''Knee surgery is covered under this policy.'') = ''yes''"
proof (intro conjI)
  let ?e = "fallback_evaluate_clause q c"
  show "confidence ?e =
     (if card (set (split_ws (lower q))) = 0 then 0
      else of_nat (card (set (split_ws (lower q)) \<inter> set (split_ws (lower c))))
             / of_nat (card (set (split_ws (lower q)))))"
    by (rule confidence_eq)
  have fin: "finite (set (split_ws (lower q)))" by simp
  show "0 \<le> confidence ?e"
    unfolding confidence_eq by simp
  show "confidence ?e \<le> 1"
    unfolding confidence_eq using overlap_ratio(3) [OF fin] by simp
  show "answer ?e = ''yes'' \<longleftrightarrow> confidence ?e > 3 / 10"
    by (simp add: fallback_evaluate_clause_def Let_def)
  show "answer ?e = ''no'' \<longleftrightarrow> \<not> confidence ?e > 3 / 10"
    by (simp add: fallback_evaluate_clause_def Let_def)
  show "direct_answer ?e =
       (if answer ?e = ''no'' then ''No relevant information found''
        else if length c > 200 then take 200 c @ ''...'' else c)"
    by (simp add: fallback_evaluate_clause_def Let_def)
  show "confidence (fallback_evaluate_clause ''Is knee surgery covered?''
        ''Knee surgery is covered under this policy.'') > 3 / 10"
    by (simp add: eval_knee)
  show "answer (fallback_evaluate_clause ''Is knee surgery covered?''
        ''Knee surgery is covered under this policy.'') = ''yes''"
    by (simp add: eval_knee)
qed

text \<open>
  Claim C8.  For every question and list of texts the fallback answer is the fixed
  sentence when the list is empty.  Otherwise the texts are joined with blanks and cut at
  the periods; a sentence matches when its lower-cased text contains one of the
  lower-cased words of the question; the answer is the first three matching sentences,
  each trimmed of surrounding whitespace, joined with a period and a blank and closed with
  a period; and when no sentence matches it is the joined text, cut to its first 500
  characters followed by three dots when it is longer than 500.
\<close>

theorem fallback_generate_answer_sentences:
  "fallback_generate_answer q texts =
     (if texts = [] then ''No relevant information found in the document.''
      else if map strip (filter (\<lambda>s. list_ex (\<lambda>w. py_in w (lower s)) (split_ws (lower q)))
                 (split_on (CHR ''.'') (join '' '' texts))) \<noteq> []
      then join ''. '' (take 3 (map strip
             (filter (\<lambda>s. list_ex (\<lambda>w. py_in w (lower s)) (split_ws (lower q)))
                (split_on (CHR ''.'') (join '' '' texts))))) @ ''.''
      else if length (join '' '' texts) > 500 then take 500 (join '' '' texts) @ ''...''
      else join '' '' texts)"
proof -
  let ?m = "map strip (filter (\<lambda>s. list_ex (\<lambda>w. py_in w (lower s)) (split_ws (lower q)))
                 (split_on (CHR ''.'') (join '' '' texts)))"
  have "\<forall>s\<in>set (take 3 ?m). CHR ''.'' \<notin> set s"
    using sentences_no_period in_set_takeD by fast
  then have "\<not> endswith (join ''. '' (take 3 ?m)) ''.''"
    by (rule join_no_final_char) simp_all
  then show ?thesis
    by (simp add: fallback_generate_answer_def sentence_loop_filter Let_def)
qed


section \<open>Claims about the vector index\<close>




text \<open>
  Claim C9.  Without a client, \<open>index_documents\<close> and \<open>clear_index\<close> return \<open>False\<close>,
  \<open>search_similar\<close> returns the empty list and \<open>get_index_stats\<close> returns the error
  mapping, and none of them raises; the same holds with a client whose service cannot be
  reached; and a search on an empty index returns the empty list.
\<close>

theorem vector_index_disabled_no_throw:
  "(pc svc = None \<longrightarrow>
      index_documents hsh md5 svc docs = (False, svc)
      \<and> clear_index svc = (False, svc)
      \<and> search_similar sim md5 svc q k = []
      \<and> get_index_stats svc = Stats_error ''Pinecone not initialized'')
   \<and> (\<forall>b. pc svc = Some b \<and> \<not> reachable b \<longrightarrow>
      index_documents hsh md5 svc docs = (False, svc)
      \<and> clear_index svc = (False, svc)
      \<and> search_similar sim md5 svc q k = []
      \<and> get_index_stats svc = Stats_error (error_text unreachable))
   \<and> (\<forall>b. pc svc = Some b \<and> entries b = [] \<longrightarrow> search_similar sim md5 svc q k = [])"
proof (intro conjI impI allI)
  assume "pc svc = None"
  then show "index_documents hsh md5 svc docs = (False, svc)"
    "clear_index svc = (False, svc)" "search_similar sim md5 svc q k = []"
    "get_index_stats svc = Stats_error ''Pinecone not initialized''"
    by (simp_all add: index_documents_def clear_index_def search_similar_def get_index_stats_def)
next
  fix b assume b: "pc svc = Some b \<and> \<not> reachable b"
  then show "index_documents hsh md5 svc docs = (False, svc)"
    by (auto simp: index_documents_def index_documents_try_def backend_upsert_def Let_def
        split: sum.splits)
  from b show "clear_index svc = (False, svc)"
    by (simp add: clear_index_def backend_delete_all_def)
  from b show "search_similar sim md5 svc q k = []"
    by (auto simp: search_similar_def search_similar_try_def backend_query_def
        split: sum.splits list.splits)
  from b show "get_index_stats svc = Stats_error (error_text unreachable)"
    by (simp add: get_index_stats_def backend_describe_def)
next
  fix b assume "pc svc = Some b \<and> entries b = []"
  then show "search_similar sim md5 svc q k = []"
    by (auto simp: search_similar_def search_similar_try_def backend_query_def
        split: sum.splits list.splits)
qed

text \<open>
  The theorem without a client, with an unreachable service and with an empty index.
\<close>

theorem vector_index_disabled_no_throw_witness:
  "index_documents (salted_hash 0) length_digest \<lparr>pc = None\<rparr> one_chunk = (False, \<lparr>pc = None\<rparr>)
   \<and> clear_index \<lparr>pc = None\<rparr> = (False, \<lparr>pc = None\<rparr>)
   \<and> search_similar flat_score length_digest \<lparr>pc = None\<rparr> ''grace period'' 5 = []
   \<and> get_index_stats \<lparr>pc = None\<rparr> = Stats_error ''Pinecone not initialized''
   \<and> search_similar flat_score length_digest
        \<lparr>pc = Some (empty_backend\<lparr>reachable := False\<rparr>)\<rparr> ''grace period'' 5 = []
   \<and> search_similar flat_score length_digest \<lparr>pc = Some empty_backend\<rparr> ''grace period'' 5 = []"
  using vector_index_disabled_no_throw [of "\<lparr>pc = None\<rparr>" "salted_hash 0" length_digest one_chunk flat_score "''grace period''" 5]
    vector_index_disabled_no_throw [of "\<lparr>pc = Some (empty_backend\<lparr>reachable := False\<rparr>)\<rparr>" "salted_hash 0" length_digest
          one_chunk flat_score "''grace period''" 5]
    vector_index_disabled_no_throw [of "\<lparr>pc = Some empty_backend\<rparr>" "salted_hash 0" length_digest one_chunk flat_score
          "''grace period''" 5]
  by (simp add: empty_backend_def)

section \<open>Claims about the request handler\<close>

text \<open>
  Claim C5, as the code has it.  For a request with the valid token: when document
  processing raises, the handler fails with status 500 and the detail
  \<open>Internal server error\<close>; when it yields no chunks the handler fails with status 400;
  when it yields chunks and indexing them reports failure the handler fails with status
  500; and when indexing succeeds the response holds exactly one answer per question, the
  answer at each position being the answer to the question at that position.
\<close>

theorem hackrx_run_statuses_and_answers:
  assumes "get_current_user token = Inr token"
  shows "(\<forall>e. process_document_from_url w (documents req) = Inl e \<longrightarrow>
          fst (post_hackrx_run w svc gs token req) =
            Inl (HTTPException 500 ''Internal server error''))
     \<and> (process_document_from_url w (documents req) = Inr [] \<longrightarrow>
          fst (post_hackrx_run w svc gs token req) =
            Inl (HTTPException 400 ''Failed to process document''))
     \<and> (\<forall>chunks svc'. process_document_from_url w (documents req) = Inr chunks \<and> chunks \<noteq> []
            \<and> index_documents (string_hash w) (md5_digest w) svc chunks = (False, svc') \<longrightarrow>
          fst (post_hackrx_run w svc gs token req) =
            Inl (HTTPException 500 ''Failed to index document''))
     \<and> (\<forall>chunks svc'. process_document_from_url w (documents req) = Inr chunks \<and> chunks \<noteq> []
            \<and> index_documents (string_hash w) (md5_digest w) svc chunks = (True, svc') \<longrightarrow>
          (\<exists>answers. fst (post_hackrx_run w svc gs token req) = Inr answers
             \<and> length answers = length (questions req)
             \<and> answers = map (answer_question w svc' gs) (questions req)))"
  using assms
  by (auto simp: post_hackrx_run_def hackrx_run_def question_loop_map)

text \<open>
  The theorem at four runs with the valid token and two questions: a download that
  fails, a document without text, a document indexed without a client, and a document
  indexed into an empty index.
\<close>

theorem hackrx_run_statuses_and_answers_witness:
  "fst (post_hackrx_run failing_world \<lparr>pc = Some empty_backend\<rparr> no_llm expected_key
      \<lparr>documents = ''u'', questions = [''q1'', ''q2'']\<rparr>) =
     Inl (HTTPException 500 ''Internal server error'')
   \<and> fst (post_hackrx_run (plain_world []) \<lparr>pc = Some empty_backend\<rparr> no_llm expected_key
      \<lparr>documents = ''u'', questions = [''q1'', ''q2'']\<rparr>) =
     Inl (HTTPException 400 ''Failed to process document'')
   \<and> fst (post_hackrx_run (plain_world ''a'') \<lparr>pc = None\<rparr> no_llm expected_key
      \<lparr>documents = ''u'', questions = [''q1'', ''q2'']\<rparr>) =
     Inl (HTTPException 500 ''Failed to index document'')
   \<and> fst (post_hackrx_run (plain_world ''a'') \<lparr>pc = Some empty_backend\<rparr> no_llm expected_key
      \<lparr>documents = ''u'', questions = [''q1'', ''q2'']\<rparr>) = Inr [''a'', ''a'']"
proof -
  let ?req = "\<lparr>documents = ''u'', questions = [''q1'', ''q2'']\<rparr>"
  let ?chunks = "chunk_metadata word_count ''u'' 1 0 [''a'']"
  have tok: "get_current_user expected_key = Inr expected_key"
    by (simp add: get_current_user_def)
  have ne: "?chunks \<noteq> []" by simp
  have none: "index_documents (string_hash (plain_world ''a'')) (md5_digest (plain_world ''a''))
      \<lparr>pc = None\<rparr> ?chunks = (False, \<lparr>pc = None\<rparr>)"
    by (simp add: index_documents_def)
  have 0: "fst (post_hackrx_run failing_world \<lparr>pc = Some empty_backend\<rparr> no_llm expected_key ?req)
      = Inl (HTTPException 500 ''Internal server error'')"
    using hackrx_run_statuses_and_answers [OF tok, of failing_world ?req
        "\<lparr>pc = Some empty_backend\<rparr>" no_llm] eval_download_fails
    by simp
  have 1: "fst (post_hackrx_run (plain_world []) \<lparr>pc = Some empty_backend\<rparr> no_llm expected_key ?req)
      = Inl (HTTPException 400 ''Failed to process document'')"
    using hackrx_run_statuses_and_answers [OF tok, of "plain_world []" ?req "\<lparr>pc = Some empty_backend\<rparr>" no_llm] eval_no_chunks
    by simp
  have 2: "fst (post_hackrx_run (plain_world ''a'') \<lparr>pc = None\<rparr> no_llm expected_key ?req)
      = Inl (HTTPException 500 ''Failed to index document'')"
    using hackrx_run_statuses_and_answers [OF tok, of "plain_world ''a''" ?req "\<lparr>pc = None\<rparr>" no_llm] eval_one_chunk ne none
    by simp
  let ?r = "index_documents (string_hash (plain_world ''a'')) (md5_digest (plain_world ''a''))
      \<lparr>pc = Some empty_backend\<rparr> ?chunks"
  have "fst ?r = True" by code_simp
  then have some: "?r = (True, snd ?r)" by (simp add: prod_eq_iff)
  have "\<exists>answers. fst (post_hackrx_run (plain_world ''a'') \<lparr>pc = Some empty_backend\<rparr> no_llm
            expected_key ?req) = Inr answers
          \<and> length answers = length (questions ?req)
          \<and> answers = map (answer_question (plain_world ''a'') (snd ?r) no_llm) (questions ?req)"
  proof -
    have p: "process_document_from_url (plain_world ''a'') (documents ?req) = Inr ?chunks"
      using eval_one_chunk by simp
    note third = hackrx_run_statuses_and_answers [OF tok, of "plain_world ''a''" ?req
        "\<lparr>pc = Some empty_backend\<rparr>" no_llm, THEN conjunct2, THEN conjunct2, THEN conjunct2,
        rule_format,
        of ?chunks "snd ?r"]
    show ?thesis by (rule third) (intro conjI p ne some)
  qed
  then have 3: "fst (post_hackrx_run (plain_world ''a'') \<lparr>pc = Some empty_backend\<rparr> no_llm
      expected_key ?req) = Inr [''a'', ''a'']"
    using eval_answers by simp
  from 0 1 2 3 show ?thesis by simp
qed

text \<open>
  Claim C5 as stated fails on a request with the valid token whose document cannot be
  downloaded: processing raises, so it yields no chunk list at all and indexing is never
  asked, yet the handler returns no answers but fails with status 500.
\<close>

theorem hackrx_run_download_failure_counterexample:
  "process_document_from_url failing_world ''u'' =
     Inl (DownloadError ''Failed to download document: 404'')
   \<and> get_current_user expected_key = Inr expected_key
   \<and> fst (post_hackrx_run failing_world \<lparr>pc = Some empty_backend\<rparr> no_llm expected_key
        \<lparr>documents = ''u'', questions = [''q1'', ''q2'']\<rparr>) =
       Inl (HTTPException 500 ''Internal server error'')"
  by (simp add: process_document_from_url_def failing_world_def get_current_user_def
      post_hackrx_run_def hackrx_run_def)

end
